theory Spec2Isabelle
  imports Complex_Main
begin

section \<open>Values shared by the search\<close>

text \<open>
  Tensors are lists of reals (a vector) and lists of rows (a matrix); Python floats are
  read as real numbers. Exceptions raised by the modelled code are values of \<open>error\<close>.
\<close>

type_synonym vec = "real list"
type_synonym matrix = "real list list"

datatype error = AssertionError | KeyError | IndexError | ValueError | ZeroDivisionError

section \<open>Program graphs (programGraph.py, class ProgramGraph)\<close>

text \<open>
  A Python \<open>frozenset\<close> is modelled by a duplicate-free list: the elements together with
  the order in which the set iterates. \<open>frozenset(xs)\<close> drops duplicates, and
  \<open>s | {n}\<close> adds \<open>n\<close> unless it is already a member.
\<close>

definition frozenset :: "'o list \<Rightarrow> 'o list" where
  "frozenset xs = remdups xs"

definition union_singleton :: "'o list \<Rightarrow> 'o \<Rightarrow> 'o list" where
  "union_singleton ns n = (if n \<in> set ns then ns else ns @ [n])"

text \<open>
  The class defines neither \<open>__eq__\<close> nor \<open>__hash__\<close>, so a graph compares and hashes
  by object identity. Every instance therefore carries the identity it was allocated
  with; the allocator is a counter handing out fresh identities.
\<close>

record 'o ProgramGraph =
  ident :: nat
  nodes :: "'o list"

definition ProgramGraph_init :: "'o list \<Rightarrow> nat \<Rightarrow> 'o ProgramGraph \<times> nat" where
  "ProgramGraph_init ns h = (\<lparr>ident = h, nodes = frozenset ns\<rparr>, Suc h)"

definition graph_eq :: "'o ProgramGraph \<Rightarrow> 'o ProgramGraph \<Rightarrow> bool" where
  "graph_eq g g' = (ident g = ident g')"

definition graph_hash :: "'o ProgramGraph \<Rightarrow> nat" where
  "graph_hash g = ident g"

definition len :: "'o ProgramGraph \<Rightarrow> nat" where
  "len g = length (nodes g)"

definition graph_extend :: "'o ProgramGraph \<Rightarrow> 'o \<Rightarrow> nat \<Rightarrow> 'o ProgramGraph \<times> nat" where
  "graph_extend g newNode h = ProgramGraph_init (union_singleton (nodes g) newNode) h"

definition objects :: "'o ProgramGraph \<Rightarrow> 'o list" where
  "objects g = nodes g"

text \<open>Every graph built by the constructor holds a duplicate-free node list.\<close>

definition wf_graph :: "'o ProgramGraph \<Rightarrow> bool" where
  "wf_graph g = distinct (nodes g)"

section \<open>The controller's configuration (SMC.py, SMC.__init__)\<close>

record 'm SMC =
  particles :: int
  fitnessWeight :: real
  model :: 'm

definition SMC_init :: "'m \<Rightarrow> int \<Rightarrow> real \<Rightarrow> error + 'm SMC" where
  "SMC_init m p w =
     (if p > 0 then Inr \<lparr>particles = p, fitnessWeight = w, model = m\<rparr>
      else Inl AssertionError)"

text \<open>The defaults of the constructor: \<open>particles=0, fitnessWeight=2.\<close>\<close>

definition SMC_init_default :: "'m \<Rightarrow> error + 'm SMC" where
  "SMC_init_default m = SMC_init m 0 2"

section \<open>The external collaborators\<close>

text \<open>
  The network (programGraph.py, class ProgramPointerNetwork) is a black box to the
  search. Its learned parts and the library calls are the fields of one record:
  \<^item> \<open>specEncoder\<close>, \<open>objectEncoder\<close> with its \<open>outputDimensionality\<close>; the encoder gets the
    number of its earlier invocations as first argument, so it need not return the same
    tensor when it is called again on the same input;
  \<^item> \<open>initialHidden_net\<close> and \<open>distance_net\<close>, the layers \<open>_initialHidden\<close> and \<open>_distance\<close>;
  \<^item> \<open>decoder_sample\<close>, the stochastic \<open>decoder.sample\<close>, and \<open>multinomial\<close>, numpy's
    \<open>random.multinomial\<close>: both get the number of random draws made so far;
  \<^item> \<open>parseLine\<close> of the DSL and \<open>execute\<close> of its objects.
\<close>

datatype token = Str string | Pointer int

datatype 'o item = Word string | Obj 'o

record ('spec, 'o, 'v) ProgramPointerNetwork =
  specEncoder :: "'spec \<Rightarrow> vec"
  objectEncoder :: "nat \<Rightarrow> 'spec \<Rightarrow> 'v \<Rightarrow> vec"
  outputDimensionality :: nat
  initialHidden_net :: "vec \<Rightarrow> vec"
  distance_net :: "vec \<Rightarrow> real"
  decoder_sample :: "nat \<Rightarrow> vec \<Rightarrow> matrix option \<Rightarrow> token list option"
  parseLine :: "'o item list \<Rightarrow> 'o option"
  execute :: "'o \<Rightarrow> 'v"
  multinomial :: "nat \<Rightarrow> int \<Rightarrow> real list \<Rightarrow> int list"

text \<open>
  \<open>t.max(0)[0]\<close>: the maximum of every column of a matrix. Both callers pass at least
  one row.
\<close>

fun colmax :: "matrix \<Rightarrow> vec" where
  "colmax [] = []"
| "colmax [r] = r"
| "colmax (r # rs) = map2 max r (colmax rs)"

definition initialHidden ::
  "('spec, 'o, 'v) ProgramPointerNetwork \<Rightarrow> matrix option \<Rightarrow> vec \<Rightarrow> vec" where
  "initialHidden m oes specEncoding =
     initialHidden_net m (specEncoding @
       (case oes of None \<Rightarrow> replicate (outputDimensionality m) 0 | Some M \<Rightarrow> colmax M))"

definition model_distance ::
  "('spec, 'o, 'v) ProgramPointerNetwork \<Rightarrow> matrix option \<Rightarrow> vec \<Rightarrow> real" where
  "model_distance m oes specEncoding =
     distance_net m (specEncoding @
       (case oes of None \<Rightarrow> replicate (outputDimensionality m) 0 | Some M \<Rightarrow> colmax M))"

section \<open>Sampling proposals (ProgramPointerNetwork.repeatedlySample)\<close>

text \<open>
  List subscription \<open>xs[i]\<close>: an index from \<open>-len(xs)\<close> to \<open>-1\<close> reads from the end, and
  an index outside \<open>-len(xs) .. len(xs)-1\<close> raises.
\<close>

definition py_index :: "'a list \<Rightarrow> int \<Rightarrow> error + 'a" where
  "py_index xs i =
     (if 0 \<le> i \<and> i < int (length xs) then Inr (xs ! nat i)
      else if i < 0 \<and> - i \<le> int (length xs) then Inr (xs ! nat (int (length xs) + i))
      else Inl IndexError)"

fun substitute :: "'o list \<Rightarrow> token list \<Rightarrow> error + 'o item list" where
  "substitute objectsInScope [] = Inr []"
| "substitute objectsInScope (Str w # ts) =
     (case substitute objectsInScope ts of Inl e \<Rightarrow> Inl e | Inr r \<Rightarrow> Inr (Word w # r))"
| "substitute objectsInScope (Pointer i # ts) =
     (case py_index objectsInScope i of
        Inl e \<Rightarrow> Inl e
      | Inr ob \<Rightarrow>
          (case substitute objectsInScope ts of Inl e \<Rightarrow> Inl e | Inr r \<Rightarrow> Inr (Obj ob # r)))"

fun lookup_all :: "('o \<rightharpoonup> vec) \<Rightarrow> 'o list \<Rightarrow> error + matrix" where
  "lookup_all d [] = Inr []"
| "lookup_all d (ob # obs) =
     (case d ob of
        None \<Rightarrow> Inl KeyError
      | Some oe \<Rightarrow> (case lookup_all d obs of Inl e \<Rightarrow> Inl e | Inr r \<Rightarrow> Inr (oe # r)))"

text \<open>
  The loop \<open>for _ in range(n_samples)\<close>; the arguments are the draws still to make, the
  random draws made so far and the samples collected.
\<close>

fun sample_loop ::
  "('spec, 'o, 'v) ProgramPointerNetwork \<Rightarrow> vec \<Rightarrow> matrix option \<Rightarrow> 'o list \<Rightarrow>
   nat \<Rightarrow> nat \<Rightarrow> 'o option list \<Rightarrow> error + ('o option list \<times> nat)" where
  "sample_loop m h0 oe objectsInScope 0 r samples = Inr (samples, r)"
| "sample_loop m h0 oe objectsInScope (Suc k) r samples =
     (case decoder_sample m r h0 oe of
        None \<Rightarrow> sample_loop m h0 oe objectsInScope k (Suc r) samples
      | Some line \<Rightarrow>
          (case substitute objectsInScope line of
             Inl e \<Rightarrow> Inl e
           | Inr nextLineOfCode \<Rightarrow>
               if Word ''RETURN'' \<in> set nextLineOfCode
               then sample_loop m h0 oe objectsInScope k (Suc r) (samples @ [None])
               else (case parseLine m nextLineOfCode of
                       None \<Rightarrow> sample_loop m h0 oe objectsInScope k (Suc r) samples
                     | Some nextObject \<Rightarrow>
                         sample_loop m h0 oe objectsInScope k (Suc r)
                           (samples @ [Some nextObject]))))"

definition repeatedlySample ::
  "('spec, 'o, 'v) ProgramPointerNetwork \<Rightarrow> vec \<Rightarrow> 'o ProgramGraph \<Rightarrow> ('o \<rightharpoonup> vec) \<Rightarrow>
   int \<Rightarrow> nat \<Rightarrow> error + ('o option list \<times> nat)" where
  "repeatedlySample m specEncoding g oes n_samples r =
     (let objectsInScope = objects g in
      case (if len g > 0 then lookup_all oes objectsInScope
            else Inr [replicate (outputDimensionality m) 0]) of
        Inl e \<Rightarrow> Inl e
      | Inr oe \<Rightarrow>
          sample_loop m (initialHidden m (Some oe) specEncoding)
            (if length objectsInScope > 0 then Some oe else None)
            objectsInScope (nat n_samples) r [])"

section \<open>The search (SMC.py, SMC.infer)\<close>

text \<open>
  The mutable state of one call of \<open>infer\<close>: the allocator of object identities, the two
  memoisation dictionaries (the distance dictionary is keyed by graphs, which hash by
  identity), the log of the objects the object encoder was invoked on, and the number
  of random draws made.
\<close>

record 'o search =
  heap :: nat
  objectEncodings :: "'o \<rightharpoonup> vec"
  distance_dict :: "nat \<rightharpoonup> real"
  encoder_calls :: "'o list"
  rng :: nat

record 'o Particle =
  frequency :: int
  graph :: "'o ProgramGraph"
  p_distance :: real

definition objectEncoding ::
  "('spec, 'o, 'v) ProgramPointerNetwork \<Rightarrow> 'spec \<Rightarrow> 'o \<Rightarrow> 'o search \<Rightarrow> vec \<times> 'o search" where
  "objectEncoding m spec ob s =
     (case objectEncodings s ob of
        Some oe \<Rightarrow> (oe, s)
      | None \<Rightarrow>
          (let oe = objectEncoder m (length (encoder_calls s)) spec (execute m ob)
           in (oe, s\<lparr>objectEncodings := (objectEncodings s)(ob \<mapsto> oe),
                      encoder_calls := encoder_calls s @ [ob]\<rparr>)))"

fun encode_objects ::
  "('spec, 'o, 'v) ProgramPointerNetwork \<Rightarrow> 'spec \<Rightarrow> 'o list \<Rightarrow> 'o search \<Rightarrow>
   matrix \<times> 'o search" where
  "encode_objects m spec [] s = ([], s)"
| "encode_objects m spec (ob # obs) s =
     (case objectEncoding m spec ob s of
        (oe, s1) \<Rightarrow> (case encode_objects m spec obs s1 of (rest, s2) \<Rightarrow> (oe # rest, s2)))"

definition scopeEncoding ::
  "('spec, 'o, 'v) ProgramPointerNetwork \<Rightarrow> 'spec \<Rightarrow> 'o ProgramGraph \<Rightarrow> 'o search \<Rightarrow>
   matrix \<times> 'o search" where
  "scopeEncoding m spec g s =
     (if len g > 0 then encode_objects m spec (objects g) s
      else ([replicate (outputDimensionality m) 0], s))"

definition distance ::
  "('spec, 'o, 'v) ProgramPointerNetwork \<Rightarrow> 'spec \<Rightarrow> vec \<Rightarrow> 'o ProgramGraph \<Rightarrow> 'o search \<Rightarrow>
   real \<times> 'o search" where
  "distance m spec specEncoding g s =
     (case distance_dict s (graph_hash g) of
        Some d \<Rightarrow> (d, s)
      | None \<Rightarrow>
          (case scopeEncoding m spec g s of
             (se, s1) \<Rightarrow>
               (let d = model_distance m (Some se) specEncoding
                in (d, s1\<lparr>distance_dict := (distance_dict s1)(graph_hash g \<mapsto> d)\<rparr>))))"

definition Particle_init ::
  "('spec, 'o, 'v) ProgramPointerNetwork \<Rightarrow> 'spec \<Rightarrow> vec \<Rightarrow> 'o ProgramGraph \<Rightarrow> int \<Rightarrow>
   'o search \<Rightarrow> 'o Particle \<times> 'o search" where
  "Particle_init m spec specEncoding g f s =
     (case distance m spec specEncoding g s of
        (d, s1) \<Rightarrow> (\<lparr>frequency = f, graph = g, p_distance = d\<rparr>, s1))"

text \<open>
  The dictionary \<open>sampleFrequency\<close>, in insertion order. A key is found by the graphs'
  own equality.
\<close>

fun dict_get :: "('o ProgramGraph \<times> int) list \<Rightarrow> 'o ProgramGraph \<Rightarrow> int \<Rightarrow> int" where
  "dict_get [] g d = d"
| "dict_get ((k, v) # kvs) g d = (if graph_eq k g then v else dict_get kvs g d)"

fun dict_set ::
  "('o ProgramGraph \<times> int) list \<Rightarrow> 'o ProgramGraph \<Rightarrow> int \<Rightarrow> ('o ProgramGraph \<times> int) list" where
  "dict_set [] g v = [(g, v)]"
| "dict_set ((k, v0) # kvs) g v =
     (if graph_eq k g then (k, v) # kvs else (k, v0) # dict_set kvs g v)"

text \<open>The loop over the proposals of one particle, whose graph is \<open>pg\<close>.\<close>

fun tally_samples ::
  "('spec, 'o, 'v) ProgramPointerNetwork \<Rightarrow> 'spec \<Rightarrow> 'o ProgramGraph \<Rightarrow> 'o option list \<Rightarrow>
   ('o ProgramGraph \<times> int) list \<Rightarrow> 'o search \<Rightarrow> ('o ProgramGraph \<times> int) list \<times> 'o search" where
  "tally_samples m spec pg [] sampleFrequency s = (sampleFrequency, s)"
| "tally_samples m spec pg (None # rest) sampleFrequency s =
     tally_samples m spec pg rest
       (dict_set sampleFrequency pg (dict_get sampleFrequency pg 0 + 1)) s"
| "tally_samples m spec pg (Some newObject # rest) sampleFrequency s =
     (case objectEncoding m spec newObject s of
        (oe, s1) \<Rightarrow>
          (case graph_extend pg newObject (heap s1) of
             (newGraph, h) \<Rightarrow>
               tally_samples m spec pg rest
                 (dict_set sampleFrequency newGraph (dict_get sampleFrequency newGraph 0 + 1))
                 (s1\<lparr>heap := h\<rparr>)))"

text \<open>The loop over the population.\<close>

fun tally_population ::
  "('spec, 'o, 'v) ProgramPointerNetwork \<Rightarrow> 'spec \<Rightarrow> vec \<Rightarrow> 'o Particle list \<Rightarrow>
   ('o ProgramGraph \<times> int) list \<Rightarrow> 'o search \<Rightarrow>
   error + (('o ProgramGraph \<times> int) list \<times> 'o search)" where
  "tally_population m spec specEncoding [] sampleFrequency s = Inr (sampleFrequency, s)"
| "tally_population m spec specEncoding (p # population) sampleFrequency s =
     (case repeatedlySample m specEncoding (graph p) (objectEncodings s) (frequency p) (rng s) of
        Inl e \<Rightarrow> Inl e
      | Inr (samples, r) \<Rightarrow>
          (case tally_samples m spec (graph p) samples sampleFrequency (s\<lparr>rng := r\<rparr>) of
             (sampleFrequency1, s1) \<Rightarrow>
               tally_population m spec specEncoding population sampleFrequency1 s1))"

text \<open>\<open>[Particle(g, f) for g, f in sampleFrequency.items()]\<close>\<close>

fun make_particles ::
  "('spec, 'o, 'v) ProgramPointerNetwork \<Rightarrow> 'spec \<Rightarrow> vec \<Rightarrow> ('o ProgramGraph \<times> int) list \<Rightarrow>
   'o search \<Rightarrow> 'o Particle list \<times> 'o search" where
  "make_particles m spec specEncoding [] s = ([], s)"
| "make_particles m spec specEncoding ((g, f) # items) s =
     (case Particle_init m spec specEncoding g f s of
        (p, s1) \<Rightarrow>
          (case make_particles m spec specEncoding items s1 of (ps, s2) \<Rightarrow> (p # ps, s2)))"

text \<open>\<open>math.log\<close> raises on an argument that is not positive.\<close>

fun logWeights :: "'o Particle list \<Rightarrow> error + real list" where
  "logWeights [] = Inr []"
| "logWeights (p # ps) =
     (if frequency p \<le> 0 then Inl ValueError
      else (case logWeights ps of
              Inl e \<Rightarrow> Inl e
            | Inr lws \<Rightarrow> Inr ((ln (real_of_int (frequency p)) - p_distance p) # lws)))"

text \<open>\<open>[math.exp(lw - max(logWeights)) for lw in logWeights]\<close>\<close>

definition exp_shifted :: "real list \<Rightarrow> real list" where
  "exp_shifted lws = map (\<lambda>lw. exp (lw - Max (set lws))) lws"

text \<open>\<open>[p/sum(ps) for p in ps]\<close>; the division raises when the sum is zero.\<close>

definition normalise :: "real list \<Rightarrow> error + real list" where
  "normalise ps =
     (if ps \<noteq> [] \<and> sum_list ps = 0 then Inl ZeroDivisionError
      else Inr (map (\<lambda>p. p / sum_list ps) ps))"

text \<open>The loop over \<open>zip(samples, sampleFrequencies)\<close> that builds the next population.\<close>

fun resample :: "'o Particle list \<Rightarrow> int list \<Rightarrow> 'o Particle list" where
  "resample (particle # samples) (f # sampleFrequencies) =
     (if f > 0 then particle\<lparr>frequency := f\<rparr> # resample samples sampleFrequencies
      else resample samples sampleFrequencies)"
| "resample samples sampleFrequencies = []"

text \<open>One iteration of \<open>for _ in range(maximumLength)\<close>.\<close>

definition smc_round ::
  "('spec, 'o, 'v) ProgramPointerNetwork SMC \<Rightarrow> 'spec \<Rightarrow> vec \<Rightarrow> 'o Particle list \<Rightarrow>
   'o search \<Rightarrow> error + ('o Particle list \<times> 'o search)" where
  "smc_round smc spec specEncoding population s =
     (case tally_population (model smc) spec specEncoding population [] s of
        Inl e \<Rightarrow> Inl e
      | Inr (sampleFrequency, s1) \<Rightarrow>
          (case make_particles (model smc) spec specEncoding sampleFrequency s1 of
             (samples, s2) \<Rightarrow>
               (case logWeights samples of
                  Inl e \<Rightarrow> Inl e
                | Inr lws \<Rightarrow>
                    (case normalise (exp_shifted lws) of
                       Inl e \<Rightarrow> Inl e
                     | Inr ps \<Rightarrow>
                         Inr (resample samples
                                (multinomial (model smc) (rng s2) (particles smc) ps),
                              s2\<lparr>rng := Suc (rng s2)\<rparr>)))))"

fun rounds ::
  "nat \<Rightarrow> ('spec, 'o, 'v) ProgramPointerNetwork SMC \<Rightarrow> 'spec \<Rightarrow> vec \<Rightarrow> 'o Particle list \<Rightarrow>
   'o search \<Rightarrow> error + ('o Particle list \<times> 'o search)" where
  "rounds 0 smc spec specEncoding population s = Inr (population, s)"
| "rounds (Suc k) smc spec specEncoding population s =
     (case smc_round smc spec specEncoding population s of
        Inl e \<Rightarrow> Inl e
      | Inr (population1, s1) \<Rightarrow> rounds k smc spec specEncoding population1 s1)"

text \<open>
  The state in which \<open>infer\<close> starts: both dictionaries empty. \<open>h\<close> is the next free
  object identity and \<open>r\<close> the number of random draws made before the call.
\<close>

definition fresh_search :: "nat \<Rightarrow> nat \<Rightarrow> 'o search" where
  "fresh_search h r =
     \<lparr>heap = h, objectEncodings = Map.empty, distance_dict = Map.empty,
      encoder_calls = [], rng = r\<rparr>"

text \<open>The population before the first round.\<close>

definition initial_population ::
  "('spec, 'o, 'v) ProgramPointerNetwork SMC \<Rightarrow> 'spec \<Rightarrow> 'o search \<Rightarrow>
   'o Particle list \<times> 'o search" where
  "initial_population smc spec s =
     (case ProgramGraph_init [] (heap s) of
        (g, h) \<Rightarrow>
          (case Particle_init (model smc) spec (specEncoder (model smc) spec) g (particles smc)
                  (s\<lparr>heap := h\<rparr>) of
             (p, s1) \<Rightarrow> ([p], s1)))"

text \<open>
  \<open>infer\<close> up to its last line: the final population and the final state.
  \<open>range(maximumLength)\<close> is empty for a negative \<open>maximumLength\<close>.
\<close>

definition infer_population ::
  "('spec, 'o, 'v) ProgramPointerNetwork SMC \<Rightarrow> 'spec \<Rightarrow> int \<Rightarrow> nat \<Rightarrow> nat \<Rightarrow>
   error + ('o Particle list \<times> 'o search)" where
  "infer_population smc spec maximumLength h r =
     (case initial_population smc spec (fresh_search h r) of
        (population, s) \<Rightarrow>
          rounds (nat maximumLength) smc spec (specEncoder (model smc) spec) population s)"

definition infer ::
  "('spec, 'o, 'v) ProgramPointerNetwork SMC \<Rightarrow> 'spec \<Rightarrow> int \<Rightarrow> nat \<Rightarrow> nat \<Rightarrow>
   error + 'o ProgramGraph list" where
  "infer smc spec maximumLength h r =
     (case infer_population smc spec maximumLength h r of
        Inl e \<Rightarrow> Inl e
      | Inr (population, s) \<Rightarrow> Inr (map graph population))"

section \<open>Invariants of the search state and the contract of the multinomial draw\<close>

text \<open>
  The object-encoding dictionary and the log of encoder invocations agree: the encoder
  has been invoked exactly on the keys of the dictionary, once each.
\<close>

definition cache_ok :: "'o search \<Rightarrow> bool" where
  "cache_ok s = (distinct (encoder_calls s) \<and> set (encoder_calls s) = dom (objectEncodings s))"

text \<open>
  A later state of the same search: both dictionaries have kept every entry, and the
  agreement of dictionary and log is kept.
\<close>

definition evolves :: "'o search \<Rightarrow> 'o search \<Rightarrow> bool" where
  "evolves s s' =
     (objectEncodings s \<subseteq>\<^sub>m objectEncodings s' \<and> distance_dict s \<subseteq>\<^sub>m distance_dict s'
      \<and> (cache_ok s \<longrightarrow> cache_ok s'))"

text \<open>
  What numpy documents for \<open>random.multinomial(n, pvals)\<close> with \<open>n \<ge> 0\<close>: one count for
  every entry of \<open>pvals\<close>, no count negative, and the counts add up to \<open>n\<close> (which is
  possible only when \<open>pvals\<close> has an entry).
\<close>

definition multinomial_ok :: "('spec, 'o, 'v) ProgramPointerNetwork \<Rightarrow> bool" where
  "multinomial_ok m =
     (\<forall>r n ps. 0 \<le> n \<longrightarrow>
        length (multinomial m r n ps) = length ps
        \<and> (\<forall>c \<in> set (multinomial m r n ps). 0 \<le> c)
        \<and> (ps \<noteq> [] \<longrightarrow> sum_list (multinomial m r n ps) = n))"

text \<open>
  The proposal oracle returns zero candidates for every particle of a population: the
  calls of \<open>repeatedlySample\<close> that a round makes, one particle after the other from the
  random draw \<open>r\<close> on with the object encodings \<open>oes\<close>, all return the empty list.
\<close>

fun no_candidates ::
  "('spec, 'o, 'v) ProgramPointerNetwork \<Rightarrow> vec \<Rightarrow> 'o Particle list \<Rightarrow> ('o \<rightharpoonup> vec) \<Rightarrow>
   nat \<Rightarrow> bool" where
  "no_candidates m specEncoding [] oes r = True"
| "no_candidates m specEncoding (p # population) oes r =
     (case repeatedlySample m specEncoding (graph p) oes (frequency p) r of
        Inl e \<Rightarrow> False
      | Inr (samples, r1) \<Rightarrow> samples = [] \<and> no_candidates m specEncoding population oes r1)"

section \<open>Example collaborators\<close>

text \<open>
  A toy DSL whose objects are natural numbers: a line of one word parses to the length
  of the word. The scripted network answers the \<open>r\<close>-th random draw with the \<open>r\<close>-th
  entry of a script and takes the multinomial draw as a parameter.
\<close>

definition example_parseLine :: "nat item list \<Rightarrow> nat option" where
  "example_parseLine line = (case line of [Word w] \<Rightarrow> Some (length w) | _ \<Rightarrow> None)"

definition scripted_net ::
  "token list option list \<Rightarrow> (nat \<Rightarrow> int \<Rightarrow> real list \<Rightarrow> int list) \<Rightarrow>
   (unit, nat, nat) ProgramPointerNetwork" where
  "scripted_net script draw =
     \<lparr>specEncoder = (\<lambda>spec. [1]),
      objectEncoder = (\<lambda>k spec v. [real k, real v]),
      outputDimensionality = 2,
      initialHidden_net = (\<lambda>v. v),
      distance_net = (\<lambda>v. real (length v)),
      decoder_sample = (\<lambda>r h0 oe. if r < length script then script ! r else None),
      parseLine = example_parseLine,
      execute = (\<lambda>ob. ob),
      multinomial = draw\<rparr>"

text \<open>Two possible outcomes of a multinomial draw: all mass on the first entry, and one
  slot for every entry.\<close>

definition all_on_first :: "nat \<Rightarrow> int \<Rightarrow> real list \<Rightarrow> int list" where
  "all_on_first r n ps = (if ps = [] then [] else n # replicate (length ps - 1) 0)"

definition one_each :: "nat \<Rightarrow> int \<Rightarrow> real list \<Rightarrow> int list" where
  "one_each r n ps = replicate (length ps) 1"

text \<open>
  Three controllers over the scripted network.
  \<^item> \<open>example_smc\<close>: three particles; the first round proposes the object 1 once and the
    terminal marker twice.
  \<^item> \<open>dup_smc\<close>: two particles; the first round proposes the objects 1 and 2, the second
    round proposes 2 on top of 1 and 1 on top of 2.
  \<^item> \<open>fading_smc\<close>: two particles; the first round proposes the object 1 twice, and from
    then on every draw of the decoder yields nothing.
\<close>

definition example_smc :: "(unit, nat, nat) ProgramPointerNetwork SMC" where
  "example_smc =
     \<lparr>particles = 3, fitnessWeight = 2,
      model = scripted_net
        [Some [Str ''a''], Some [Str ''RETURN''], Some [Str ''RETURN'']] all_on_first\<rparr>"

definition dup_smc :: "(unit, nat, nat) ProgramPointerNetwork SMC" where
  "dup_smc =
     \<lparr>particles = 2, fitnessWeight = 2,
      model = scripted_net
        [Some [Str ''a''], Some [Str ''bb''], None, Some [Str ''bb''], Some [Str ''a'']]
        one_each\<rparr>"

definition fading_smc :: "(unit, nat, nat) ProgramPointerNetwork SMC" where
  "fading_smc =
     \<lparr>particles = 2, fitnessWeight = 2,
      model = scripted_net [Some [Str ''a''], Some [Str ''a'']] all_on_first\<rparr>"

text \<open>
  The population and the state of \<open>example_smc\<close> and of \<open>fading_smc\<close> before the first
  round.
\<close>

definition example_start :: "nat Particle list \<times> nat search" where
  "example_start = initial_population example_smc () (fresh_search 0 0)"

definition fading_start :: "nat Particle list \<times> nat search" where
  "fading_start = initial_population fading_smc () (fresh_search 0 0)"

text \<open>The tally of the first round of \<open>example_smc\<close> and the state after tallying.\<close>

definition example_tally :: "(nat ProgramGraph \<times> int) list \<times> nat search" where
  "example_tally =
     ([(\<lparr>ident = 1, nodes = [1]\<rparr>, 1), (\<lparr>ident = 0, nodes = []\<rparr>, 2)],
      \<lparr>heap = 2, objectEncodings = [1 \<mapsto> [0, 1]], distance_dict = [0 \<mapsto> 3],
       encoder_calls = [1], rng = 3\<rparr>)"

section \<open>Properties of program graphs\<close>

lemmas example_defs = example_smc_def dup_smc_def fading_smc_def example_start_def
  fading_start_def
  example_tally_def scripted_net_def one_each_def all_on_first_def example_parseLine_def
  infer_def infer_population_def initial_population_def fresh_search_def
  ProgramGraph_init_def frozenset_def Particle_init_def distance_def scopeEncoding_def
  len_def objects_def graph_hash_def model_distance_def smc_round_def repeatedlySample_def
  initialHidden_def objectEncoding_def graph_extend_def union_singleton_def graph_eq_def
  Let_def

lemma distinct_union_singleton:
  "distinct ns \<Longrightarrow> distinct (union_singleton ns n)"
  by (simp add: union_singleton_def)

lemma set_union_singleton:
  "set (union_singleton ns n) = set ns \<union> {n}"
  by (auto simp: union_singleton_def)

lemma wf_ProgramGraph_init: "wf_graph (fst (ProgramGraph_init ns h))"
  by (simp add: wf_graph_def ProgramGraph_init_def frozenset_def)

lemma frozenset_distinct: "distinct ns \<Longrightarrow> frozenset ns = ns"
  by (simp add: frozenset_def)

text \<open>
  Claim C10. For every graph \<open>g\<close> and node \<open>n\<close>, the objects of \<open>g.extend(n)\<close> are the
  objects of \<open>g\<close> together with \<open>n\<close>; the call returns a new graph and leaves the
  receiver as it was; extending with a node that is already present gives the same
  objects and the same length, and in every case the length grows by at most one.
\<close>

theorem extend_objects:
  "set (objects (fst (graph_extend g n h))) = set (objects g) \<union> {n}
   \<and> wf_graph (fst (graph_extend g n h))
   \<and> (wf_graph g \<and> n \<in> set (objects g) \<longrightarrow>
        objects (fst (graph_extend g n h)) = objects g \<and> len (fst (graph_extend g n h)) = len g)
   \<and> (wf_graph g \<longrightarrow> len g \<le> len (fst (graph_extend g n h)) \<and> len (fst (graph_extend g n h)) \<le> len g + 1)"
  by (auto simp: graph_extend_def ProgramGraph_init_def objects_def len_def wf_graph_def
      frozenset_def union_singleton_def distinct_remdups_id)

theorem extend_objects_witness:
  "objects (fst (graph_extend \<lparr>ident = 0, nodes = [1::nat, 2]\<rparr> 2 1)) = [1, 2]
   \<and> len (fst (graph_extend \<lparr>ident = 0, nodes = [1::nat, 2]\<rparr> 2 1)) = 2
   \<and> set (objects (fst (graph_extend \<lparr>ident = 0, nodes = [1::nat, 2]\<rparr> 3 1))) = {1, 2, 3}"
  using extend_objects [of "\<lparr>ident = 0, nodes = [1::nat, 2]\<rparr>" 2 1]
    extend_objects [of "\<lparr>ident = 0, nodes = [1::nat, 2]\<rparr>" 3 1]
  by (simp add: objects_def len_def wf_graph_def insert_commute)

text \<open>
  Claim C9. Constructing the controller with \<open>particles \<le> 0\<close>, which includes the default
  of 0, fails with the assertion; with \<open>particles > 0\<close> construction succeeds and stores
  the configuration.
\<close>

theorem SMC_init_particles:
  "(p \<le> 0 \<longrightarrow> SMC_init m p w = Inl AssertionError)
   \<and> SMC_init_default m = Inl AssertionError
   \<and> (p > 0 \<longrightarrow> SMC_init m p w = Inr \<lparr>particles = p, fitnessWeight = w, model = m\<rparr>)"
  by (simp add: SMC_init_def SMC_init_default_def)

theorem SMC_init_particles_witness:
  "SMC_init () (-3) 2 = Inl AssertionError \<and> SMC_init () 0 2 = Inl AssertionError
   \<and> SMC_init () 4 2 = Inr \<lparr>particles = 4, fitnessWeight = 2, model = ()\<rparr>"
  using SMC_init_particles [of "-3" "()" 2] SMC_init_particles [of 0 "()" 2]
    SMC_init_particles [of 4 "()" 2]
  by simp

section \<open>The softmax of the log-weights\<close>

lemma exp_shifted_range:
  assumes "p \<in> set (exp_shifted lws)"
  shows "0 < p \<and> p \<le> 1"
proof -
  from assms obtain lw where lw: "lw \<in> set lws" and p: "p = exp (lw - Max (set lws))"
    by (auto simp: exp_shifted_def)
  have "lw \<le> Max (set lws)" using lw by simp
  then show ?thesis using p by simp
qed

lemma one_in_exp_shifted:
  assumes "lws \<noteq> []"
  shows "1 \<in> set (exp_shifted lws)"
proof -
  have "Max (set lws) \<in> set lws" using assms by (intro Max_in) auto
  then have "exp (Max (set lws) - Max (set lws)) \<in> set (exp_shifted lws)"
    unfolding exp_shifted_def by (simp add: image_iff)
  then show ?thesis by simp
qed

lemma sum_exp_shifted_ge_1:
  assumes "lws \<noteq> []"
  shows "1 \<le> sum_list (exp_shifted lws)"
proof -
  have nonneg: "\<And>p. p \<in> set (exp_shifted lws) \<Longrightarrow> 0 \<le> p"
    using exp_shifted_range by (metis less_eq_real_def)
  show ?thesis
    by (rule member_le_sum_list [OF one_in_exp_shifted [OF assms]]) (rule nonneg)
qed

lemma sum_list_divide:
  fixes ps :: "real list"
  shows "sum_list (map (\<lambda>p. p / c) ps) = sum_list ps / c"
  by (induction ps) (simp_all add: add_divide_distrib)

lemma normalise_exp_shifted:
  assumes "lws \<noteq> []"
  shows "normalise (exp_shifted lws) =
           Inr (map (\<lambda>p. p / sum_list (exp_shifted lws)) (exp_shifted lws))"
  using sum_exp_shifted_ge_1 [OF assms] by (simp add: normalise_def)

lemma normalise_Nil: "normalise [] = Inr []"
  by (simp add: normalise_def)

lemma exp_shifted_const:
  assumes "lws \<noteq> []" and "\<forall>x \<in> set lws. \<forall>y \<in> set lws. x = y"
  shows "exp_shifted lws = replicate (length lws) 1"
proof -
  have "set lws = {hd lws}" using assms by (cases lws) auto
  then have "Max (set lws) = hd lws" by simp
  moreover have "\<forall>lw \<in> set lws. lw = hd lws" using assms by (cases lws) auto
  ultimately have "exp_shifted lws = map (\<lambda>lw. 1) lws"
    unfolding exp_shifted_def by (simp cong: map_cong)
  then show ?thesis by (simp add: map_replicate_const)
qed

text \<open>
  Claim C5. The normalisation subtracts the maximum log-weight before exponentiating
  and divides by the sum. For every non-empty list of log-weights it raises nothing and
  gives a categorical distribution: one probability per particle, none negative, summing
  to 1. When all log-weights are equal the distribution is uniform. (Floats are read as
  real numbers.)
\<close>

theorem softmax_distribution:
  "lws \<noteq> [] \<longrightarrow>
     (\<exists>ps. normalise (exp_shifted lws) = Inr ps
        \<and> length ps = length lws
        \<and> (\<forall>i < length lws.
              ps ! i = exp (lws ! i - Max (set lws)) / (\<Sum>lw\<leftarrow>lws. exp (lw - Max (set lws))))
        \<and> (\<forall>p \<in> set ps. 0 \<le> p) \<and> sum_list ps = 1
        \<and> ((\<forall>x \<in> set lws. \<forall>y \<in> set lws. x = y) \<longrightarrow>
              ps = replicate (length lws) (1 / real (length lws))))"
proof
  assume ne: "lws \<noteq> []"
  let ?es = "exp_shifted lws"
  let ?ps = "map (\<lambda>p. p / sum_list ?es) ?es"
  have S: "1 \<le> sum_list ?es" by (rule sum_exp_shifted_ge_1 [OF ne])
  have a: "normalise ?es = Inr ?ps" by (rule normalise_exp_shifted [OF ne])
  have b: "length ?ps = length lws" by (simp add: exp_shifted_def)
  have c: "\<forall>i < length lws.
      ?ps ! i = exp (lws ! i - Max (set lws)) / (\<Sum>lw\<leftarrow>lws. exp (lw - Max (set lws)))"
    by (simp add: exp_shifted_def)
  have d: "\<forall>p \<in> set ?ps. 0 \<le> p"
  proof
    fix p assume "p \<in> set ?ps"
    then obtain q where "q \<in> set ?es" and "p = q / sum_list ?es" by auto
    then show "0 \<le> p" using exp_shifted_range [of q lws] S by simp
  qed
  have e: "sum_list ?ps = 1" using S by (simp add: sum_list_divide)
  have f: "(\<forall>x \<in> set lws. \<forall>y \<in> set lws. x = y) \<longrightarrow>
      ?ps = replicate (length lws) (1 / real (length lws))"
  proof
    assume "\<forall>x \<in> set lws. \<forall>y \<in> set lws. x = y"
    then have "?es = replicate (length lws) 1" by (rule exp_shifted_const [OF ne])
    then show "?ps = replicate (length lws) (1 / real (length lws))"
      by (simp add: sum_list_replicate)
  qed
  from a b c d e f show "\<exists>ps. normalise ?es = Inr ps
        \<and> length ps = length lws
        \<and> (\<forall>i < length lws.
              ps ! i = exp (lws ! i - Max (set lws)) / (\<Sum>lw\<leftarrow>lws. exp (lw - Max (set lws))))
        \<and> (\<forall>p \<in> set ps. 0 \<le> p) \<and> sum_list ps = 1
        \<and> ((\<forall>x \<in> set lws. \<forall>y \<in> set lws. x = y) \<longrightarrow>
              ps = replicate (length lws) (1 / real (length lws)))"
    by blast
qed

theorem softmax_distribution_witness:
  "normalise (exp_shifted [0, 0]) = Inr [1 / 2, 1 / 2]"
  using softmax_distribution [of "[0, 0]"] by auto

section \<open>How the search state evolves\<close>

lemma evolves_refl: "evolves s s"
  by (simp add: evolves_def)

lemma evolves_trans: "evolves s s1 \<Longrightarrow> evolves s1 s2 \<Longrightarrow> evolves s s2"
  unfolding evolves_def by (blast intro: map_le_trans)

lemma evolves_heap: "evolves s (s\<lparr>heap := h\<rparr>)"
  by (simp add: evolves_def cache_ok_def)

lemma evolves_rng: "evolves s (s\<lparr>rng := r\<rparr>)"
  by (simp add: evolves_def cache_ok_def)

lemma evolves_lookup:
  "evolves s s1 \<Longrightarrow> objectEncodings s ob = Some oe \<Longrightarrow> objectEncodings s1 ob = Some oe"
  unfolding evolves_def by (metis domI map_le_def)

lemma evolves_distance:
  "evolves s s1 \<Longrightarrow> distance_dict s k = Some d \<Longrightarrow> distance_dict s1 k = Some d"
  unfolding evolves_def by (metis domI map_le_def)

lemma objectEncoding_stored:
  "objectEncoding m spec ob s = (oe, s1) \<Longrightarrow> objectEncodings s1 ob = Some oe"
  by (auto simp: objectEncoding_def Let_def split: option.splits)

lemma objectEncoding_evolves:
  "objectEncoding m spec ob s = (oe, s1) \<Longrightarrow> evolves s s1"
  by (auto simp: objectEncoding_def Let_def evolves_def cache_ok_def map_le_def
      split: option.splits)

lemma objectEncoding_hit:
  "objectEncodings s ob = Some oe \<Longrightarrow> objectEncoding m spec ob s = (oe, s)"
  by (simp add: objectEncoding_def)

lemma encode_objects_evolves:
  "encode_objects m spec obs s = (M, s1) \<Longrightarrow> evolves s s1"
proof (induction obs arbitrary: s M)
  case Nil
  then show ?case by (simp add: evolves_refl)
next
  case (Cons ob obs)
  then show ?case
    by (auto split: prod.splits intro: evolves_trans objectEncoding_evolves)
qed

lemma encode_objects_rows:
  "encode_objects m spec obs s = (M, s1) \<Longrightarrow>
     M = map (\<lambda>ob. the (objectEncodings s1 ob)) obs
     \<and> (\<forall>ob \<in> set obs. objectEncodings s1 ob \<noteq> None)"
proof (induction obs arbitrary: s M s1)
  case Nil
  then show ?case by simp
next
  case (Cons ob obs)
  obtain oe s0 where a: "objectEncoding m spec ob s = (oe, s0)" by force
  obtain rest s2 where b: "encode_objects m spec obs s0 = (rest, s2)" by force
  from Cons.prems a b have M: "M = oe # rest" and s1: "s2 = s1" by auto
  have "objectEncodings s0 ob = Some oe" by (rule objectEncoding_stored [OF a])
  then have "objectEncodings s2 ob = Some oe"
    by (rule evolves_lookup [OF encode_objects_evolves [OF b]])
  with Cons.IH [OF b] M s1 show ?case by simp
qed

lemma scopeEncoding_evolves:
  "scopeEncoding m spec g s = (M, s1) \<Longrightarrow> evolves s s1"
  by (auto simp: scopeEncoding_def evolves_refl split: if_splits intro: encode_objects_evolves)

lemma evolves_distance_upd:
  "distance_dict s k = None \<Longrightarrow> evolves s (s\<lparr>distance_dict := (distance_dict s)(k \<mapsto> d)\<rparr>)"
  by (auto simp: evolves_def cache_ok_def map_le_def)

lemma objectEncoding_distance_dict:
  "objectEncoding m spec ob s = (oe, s1) \<Longrightarrow> distance_dict s1 = distance_dict s"
  by (auto simp: objectEncoding_def Let_def split: option.splits)

lemma encode_objects_distance_dict:
  "encode_objects m spec obs s = (M, s1) \<Longrightarrow> distance_dict s1 = distance_dict s"
proof (induction obs arbitrary: s M)
  case Nil
  then show ?case by simp
next
  case (Cons ob obs)
  then show ?case
    by (auto split: prod.splits dest: objectEncoding_distance_dict)
qed

lemma scopeEncoding_distance_dict:
  "scopeEncoding m spec g s = (M, s1) \<Longrightarrow> distance_dict s1 = distance_dict s"
  by (auto simp: scopeEncoding_def split: if_splits dest: encode_objects_distance_dict)

lemma distance_evolves:
  assumes "distance m spec se g s = (d, s1)"
  shows "evolves s s1"
proof (cases "distance_dict s (graph_hash g)")
  case None
  obtain M s0 where b: "scopeEncoding m spec g s = (M, s0)" by force
  have e: "evolves s s0" by (rule scopeEncoding_evolves [OF b])
  have n: "distance_dict s0 (graph_hash g) = None"
    using scopeEncoding_distance_dict [OF b] None by simp
  from assms None b have "s1 = s0\<lparr>distance_dict := (distance_dict s0)(graph_hash g \<mapsto> d)\<rparr>"
    by (auto simp: distance_def Let_def)
  then show ?thesis using evolves_trans [OF e evolves_distance_upd [OF n]] by simp
next
  case (Some d0)
  with assms show ?thesis by (simp add: distance_def evolves_refl)
qed

lemma distance_stored:
  "distance m spec se g s = (d, s1) \<Longrightarrow> distance_dict s1 (graph_hash g) = Some d"
  by (auto simp: distance_def Let_def split: option.splits prod.splits)

lemma Particle_init_evolves:
  "Particle_init m spec se g f s = (p, s1) \<Longrightarrow> evolves s s1"
  by (auto simp: Particle_init_def split: prod.splits dest: distance_evolves)

lemma Particle_init_fields:
  "Particle_init m spec se g f s = (p, s1) \<Longrightarrow>
     frequency p = f \<and> graph p = g \<and> distance_dict s1 (graph_hash g) = Some (p_distance p)"
  by (auto simp: Particle_init_def split: prod.splits dest: distance_stored)

lemma tally_samples_evolves:
  "tally_samples m spec pg samples sf s = (sf1, s1) \<Longrightarrow> evolves s s1"
proof (induction m spec pg samples sf s rule: tally_samples.induct)
  case (1 m spec pg sampleFrequency s)
  then show ?case by (simp add: evolves_refl)
next
  case (2 m spec pg rest sampleFrequency s)
  then show ?case by simp
next
  case (3 m spec pg newObject rest sampleFrequency s)
  obtain oe s0 where a: "objectEncoding m spec newObject s = (oe, s0)" by force
  obtain newGraph h where b: "graph_extend pg newObject (heap s0) = (newGraph, h)" by force
  from "3.prems" a b have c:
    "tally_samples m spec pg rest
       (dict_set sampleFrequency newGraph (dict_get sampleFrequency newGraph 0 + 1))
       (s0\<lparr>heap := h\<rparr>) = (sf1, s1)"
    by simp
  have "evolves (s0\<lparr>heap := h\<rparr>) s1"
    using "3.IH" [OF a [symmetric] b [symmetric] c] .
  then show ?case
    using evolves_trans [OF objectEncoding_evolves [OF a] evolves_trans [OF evolves_heap]]
    by blast
qed

lemma tally_population_evolves:
  "tally_population m spec se pop sf s = Inr (sf1, s1) \<Longrightarrow> evolves s s1"
proof (induction pop arbitrary: sf s)
  case Nil
  then show ?case by (simp add: evolves_refl)
next
  case (Cons p pop)
  from Cons.prems obtain samples r where
    a: "repeatedlySample m se (graph p) (objectEncodings s) (frequency p) (rng s) = Inr (samples, r)"
    by (auto split: sum.splits)
  obtain sf0 s0 where b: "tally_samples m spec (graph p) samples sf (s\<lparr>rng := r\<rparr>) = (sf0, s0)"
    by force
  from Cons.prems a b have c: "tally_population m spec se pop sf0 s0 = Inr (sf1, s1)" by simp
  show ?case
    using evolves_trans [OF evolves_rng evolves_trans [OF tally_samples_evolves [OF b] Cons.IH [OF c]]] .
qed

lemma make_particles_evolves:
  "make_particles m spec se items s = (ps, s1) \<Longrightarrow> evolves s s1"
proof (induction items arbitrary: s ps)
  case Nil
  then show ?case by (simp add: evolves_refl)
next
  case (Cons it items)
  then show ?case
    by (cases it) (auto split: prod.splits intro: evolves_trans Particle_init_evolves)
qed

lemma make_particles_fields:
  "make_particles m spec se items s = (ps, s1) \<Longrightarrow>
     map (\<lambda>p. (graph p, frequency p)) ps = items
     \<and> (\<forall>p \<in> set ps. distance_dict s1 (graph_hash (graph p)) = Some (p_distance p))"
proof (induction items arbitrary: s ps s1)
  case Nil
  then show ?case by simp
next
  case (Cons it items)
  obtain g f where it: "it = (g, f)" by (cases it)
  obtain p s0 where a: "Particle_init m spec se g f s = (p, s0)" by force
  obtain rest s2 where b: "make_particles m spec se items s0 = (rest, s2)" by force
  from Cons.prems it a b have ps: "ps = p # rest" and s1: "s2 = s1" by auto
  have "distance_dict s2 (graph_hash (graph p)) = Some (p_distance p)"
    using Particle_init_fields [OF a] evolves_distance [OF make_particles_evolves [OF b]]
    by auto
  with Cons.IH [OF b] Particle_init_fields [OF a] it ps s1 show ?case by simp
qed

lemma smc_round_evolves:
  "smc_round smc spec se pop s = Inr (pop1, s1) \<Longrightarrow> evolves s s1"
proof -
  assume a: "smc_round smc spec se pop s = Inr (pop1, s1)"
  then obtain sf s0 where b: "tally_population (model smc) spec se pop [] s = Inr (sf, s0)"
    by (auto simp: smc_round_def split: sum.splits)
  obtain samples s2 where c: "make_particles (model smc) spec se sf s0 = (samples, s2)"
    by force
  from a b c have "s1 = s2\<lparr>rng := Suc (rng s2)\<rparr>"
    by (auto simp: smc_round_def split: sum.splits)
  then show ?thesis
    using evolves_trans [OF tally_population_evolves [OF b]
        evolves_trans [OF make_particles_evolves [OF c] evolves_rng]]
    by simp
qed

lemma rounds_evolves:
  "rounds k smc spec se pop s = Inr (pop1, s1) \<Longrightarrow> evolves s s1"
proof (induction k arbitrary: pop s)
  case 0
  then show ?case by (simp add: evolves_refl)
next
  case (Suc k)
  then show ?case
    by (auto split: sum.splits intro: evolves_trans smc_round_evolves)
qed

lemma initial_population_evolves:
  "initial_population smc spec s = (pop, s1) \<Longrightarrow> evolves s s1"
  by (auto simp: initial_population_def ProgramGraph_init_def split: prod.splits
      intro: evolves_trans [OF evolves_heap] Particle_init_evolves)

lemma cache_ok_fresh: "cache_ok (fresh_search h r)"
  by (simp add: cache_ok_def fresh_search_def)

lemma infer_population_cache_ok:
  assumes "infer_population smc spec maximumLength h r = Inr (pop, s)"
  shows "cache_ok s"
proof -
  obtain pop0 s0 where a: "initial_population smc spec (fresh_search h r) = (pop0, s0)"
    by force
  with assms have b: "rounds (nat maximumLength) smc spec (specEncoder (model smc) spec) pop0 s0
      = Inr (pop, s)"
    by (simp add: infer_population_def)
  have "evolves (fresh_search h r) s"
    by (rule evolves_trans [OF initial_population_evolves [OF a] rounds_evolves [OF b]])
  then show ?thesis using cache_ok_fresh [of h r] unfolding evolves_def by blast
qed


section \<open>The tally and the log-weights\<close>

lemma dict_get_nonneg:
  "\<forall>(k, v) \<in> set sf. 0 < v \<Longrightarrow> 0 \<le> dict_get sf g 0"
  by (induction sf) (auto split: if_splits)

lemma dict_set_positive:
  "\<forall>(k, v) \<in> set sf. 0 < v \<Longrightarrow> 0 < c \<Longrightarrow> \<forall>(k, v) \<in> set (dict_set sf g c). 0 < v"
  by (induction sf) (auto split: if_splits)

lemma dict_bump_positive:
  assumes "\<forall>(k, v) \<in> set sf. 0 < v"
  shows "\<forall>(k, v) \<in> set (dict_set sf g (dict_get sf g 0 + 1)). 0 < v"
proof -
  have "0 < dict_get sf g 0 + 1" using dict_get_nonneg [OF assms, of g] by simp
  then show ?thesis by (rule dict_set_positive [OF assms])
qed

lemma dict_set_nonempty: "dict_set sf g c \<noteq> []"
  by (cases sf) (auto split: if_splits)

lemma tally_samples_positive:
  "tally_samples m spec pg samples sf s = (sf1, s1) \<Longrightarrow> \<forall>(k, v) \<in> set sf. 0 < v \<Longrightarrow>
     \<forall>(k, v) \<in> set sf1. 0 < v"
proof (induction m spec pg samples sf s rule: tally_samples.induct)
  case (1 m spec pg sampleFrequency s)
  then show ?case by simp
next
  case (2 m spec pg rest sampleFrequency s)
  show ?case
    using "2.IH" "2.prems"(1) dict_bump_positive [OF "2.prems"(2)] by simp
next
  case (3 m spec pg newObject rest sampleFrequency s)
  obtain oe s0 where a: "objectEncoding m spec newObject s = (oe, s0)" by force
  obtain newGraph h where b: "graph_extend pg newObject (heap s0) = (newGraph, h)" by force
  from "3.prems"(1) a b have c:
    "tally_samples m spec pg rest
       (dict_set sampleFrequency newGraph (dict_get sampleFrequency newGraph 0 + 1))
       (s0\<lparr>heap := h\<rparr>) = (sf1, s1)"
    by simp
  show ?case
    using "3.IH" [OF a [symmetric] b [symmetric] c] dict_bump_positive [OF "3.prems"(2)] .
qed

lemma tally_population_positive:
  "tally_population m spec se pop sf s = Inr (sf1, s1) \<Longrightarrow> \<forall>(k, v) \<in> set sf. 0 < v \<Longrightarrow>
     \<forall>(k, v) \<in> set sf1. 0 < v"
proof (induction pop arbitrary: sf s)
  case Nil
  then show ?case by simp
next
  case (Cons p pop)
  from Cons.prems(1) obtain samples r where
    a: "repeatedlySample m se (graph p) (objectEncodings s) (frequency p) (rng s) = Inr (samples, r)"
    by (auto split: sum.splits)
  obtain sf0 s0 where b: "tally_samples m spec (graph p) samples sf (s\<lparr>rng := r\<rparr>) = (sf0, s0)"
    by force
  from Cons.prems(1) a b have c: "tally_population m spec se pop sf0 s0 = Inr (sf1, s1)" by simp
  show ?case
    by (rule Cons.IH [OF c tally_samples_positive [OF b Cons.prems(2)]])
qed

lemma logWeights_positive:
  "\<forall>p \<in> set ps. 0 < frequency p \<Longrightarrow>
     logWeights ps = Inr (map (\<lambda>p. ln (real_of_int (frequency p)) - p_distance p) ps)"
  by (induction ps) auto

lemma logWeights_Inr_length: "logWeights ps = Inr lws \<Longrightarrow> length lws = length ps"
  by (induction ps arbitrary: lws) (auto split: if_splits sum.splits)

text \<open>
  Claim C4. In every round the log-weight of each distinct candidate is the logarithm
  of its tally count minus the distance estimate stored for its graph, in the order of
  the tally; nothing else enters. The \<open>fitnessWeight\<close> is accepted by the constructor
  and changes neither a round nor the result of \<open>infer\<close>.
\<close>

theorem logWeights_formula:
  "(tally_population (model smc) spec se pop [] s = Inr (sf, s1)
      \<and> make_particles (model smc) spec se sf s1 = (samples, s2) \<longrightarrow>
        logWeights samples
          = Inr (map (\<lambda>(g, f). ln (real_of_int f) - the (distance_dict s2 (graph_hash g))) sf)
        \<and> logWeights samples
          = Inr (map (\<lambda>p. ln (real_of_int (frequency p)) - p_distance p) samples))
   \<and> (0 < p \<longrightarrow> (\<exists>c. SMC_init m p w = Inr c \<and> fitnessWeight c = w))
   \<and> smc_round (smc\<lparr>fitnessWeight := w\<rparr>) spec se pop s = smc_round smc spec se pop s
   \<and> infer (smc\<lparr>fitnessWeight := w\<rparr>) spec maximumLength h r = infer smc spec maximumLength h r"
proof -
  have A: "logWeights samples
          = Inr (map (\<lambda>(g, f). ln (real_of_int f) - the (distance_dict s2 (graph_hash g))) sf)
        \<and> logWeights samples
          = Inr (map (\<lambda>p. ln (real_of_int (frequency p)) - p_distance p) samples)"
    if t: "tally_population (model smc) spec se pop [] s = Inr (sf, s1)"
      and mk: "make_particles (model smc) spec se sf s1 = (samples, s2)"
  proof -
    have pos: "\<forall>(k, v) \<in> set sf. 0 < v"
      by (rule tally_population_positive [OF t]) simp
    note fl = make_particles_fields [OF mk]
    from fl have sf: "sf = map (\<lambda>p. (graph p, frequency p)) samples" by simp
    have fpos: "\<forall>p \<in> set samples. 0 < frequency p"
      using pos unfolding sf by auto
    have "map (\<lambda>(g, f). ln (real_of_int f) - the (distance_dict s2 (graph_hash g))) sf
        = map (\<lambda>p. ln (real_of_int (frequency p)) - p_distance p) samples"
    proof -
      have "\<forall>p \<in> set samples. the (distance_dict s2 (graph_hash (graph p))) = p_distance p"
        using fl by simp
      then show ?thesis by (simp add: sf o_def)
    qed
    then show ?thesis using logWeights_positive [OF fpos] by simp
  qed
  have B: "0 < p \<longrightarrow> (\<exists>c. SMC_init m p w = Inr c \<and> fitnessWeight c = w)"
    by (simp add: SMC_init_def)
  have C: "smc_round (smc\<lparr>fitnessWeight := w\<rparr>) spec se pop s = smc_round smc spec se pop s"
    for se pop s
    by (simp add: smc_round_def cong: sum.case_cong prod.case_cong)
  have D: "rounds k (smc\<lparr>fitnessWeight := w\<rparr>) spec se pop s = rounds k smc spec se pop s"
    for k se pop s
    by (induction k arbitrary: pop s) (simp_all add: C cong: sum.case_cong prod.case_cong)
  have E: "infer (smc\<lparr>fitnessWeight := w\<rparr>) spec maximumLength h r
      = infer smc spec maximumLength h r"
    by (simp add: infer_def infer_population_def initial_population_def D
        cong: sum.case_cong prod.case_cong)
  from A B C E show ?thesis by blast
qed

lemma exp_shifted_Nil: "exp_shifted [] = []"
  by (simp add: exp_shifted_def)

lemma normalise_exp_shifted_Cons:
  "normalise (exp_shifted (lw # lws)) =
     Inr (map (\<lambda>p. p / sum_list (exp_shifted (lw # lws))) (exp_shifted (lw # lws)))"
  by (rule normalise_exp_shifted) simp

lemmas softmax_eval = exp_shifted_Nil normalise_Nil normalise_exp_shifted_Cons

theorem logWeights_formula_witness:
  "tally_population (model example_smc) () [1] (fst example_start) [] (snd example_start)
     = Inr example_tally
   \<and> logWeights (fst (make_particles (model example_smc) () [1]
        (fst example_tally) (snd example_tally))) = Inr [- 3, ln 2 - 3]
   \<and> SMC_init (model example_smc) 3 7 = Inr (example_smc\<lparr>fitnessWeight := 7\<rparr>)"
  using logWeights_formula [of example_smc "()" "[1]" "fst example_start" "snd example_start"
      "fst example_tally" "snd example_tally"
      "fst (make_particles (model example_smc) () [1] (fst example_tally) (snd example_tally))"
      "snd (make_particles (model example_smc) () [1] (fst example_tally) (snd example_tally))"
      3 "model example_smc" 7 0 0 0]
  by (simp add: example_defs SMC_init_def eval_nat_numeral)

text \<open>
  Claim C6. With \<open>maximumLength = 0\<close> no round is run: \<open>infer\<close> returns the list holding
  only the empty graph, and the population it is read from is the initial one, a single
  particle for the empty graph whose frequency is \<open>particles\<close>.
\<close>

theorem infer_zero_rounds:
  "infer smc spec 0 h r = Inr [\<lparr>ident = h, nodes = []\<rparr>]
   \<and> (\<exists>d s. infer_population smc spec 0 h r
          = Inr ([\<lparr>frequency = particles smc, graph = \<lparr>ident = h, nodes = []\<rparr>,
                   p_distance = d\<rparr>], s))"
  by (simp add: infer_def infer_population_def initial_population_def fresh_search_def
      ProgramGraph_init_def frozenset_def Particle_init_def split: prod.splits)

theorem infer_zero_rounds_witness:
  "infer example_smc () 0 0 0 = Inr [\<lparr>ident = 0, nodes = []\<rparr>]"
  using infer_zero_rounds [of example_smc "()" 0 0] by simp

section \<open>The encoding cache\<close>

lemma encode_objects_length:
  "encode_objects m spec obs s = (M, s1) \<Longrightarrow> length M = length obs"
  using encode_objects_rows by fastforce

text \<open>
  Claim C7. For the empty graph the scope encoding is the zero matrix with exactly one
  row of the object encoder's output width, and the state is left alone. For any other
  graph it is the stack of the object encodings of the graph's objects, one row per
  object in the order of \<open>objects\<close>, each row being what \<open>objectEncoding\<close> returns for
  that object. In no case is the result an empty collection.
\<close>

theorem scopeEncoding_rows:
  "(len g = 0 \<longrightarrow> scopeEncoding m spec g s = ([replicate (outputDimensionality m) 0], s))
   \<and> (0 < len g \<longrightarrow>
        (\<exists>M s1. scopeEncoding m spec g s = (M, s1) \<and> length M = len g
           \<and> M = map (\<lambda>ob. fst (objectEncoding m spec ob s1)) (objects g)
           \<and> (\<forall>ob \<in> set (objects g). snd (objectEncoding m spec ob s1) = s1)))
   \<and> fst (scopeEncoding m spec g s) \<noteq> []"
proof -
  have A: "len g = 0 \<longrightarrow> scopeEncoding m spec g s = ([replicate (outputDimensionality m) 0], s)"
    by (simp add: scopeEncoding_def)
  have B: "\<exists>M s1. scopeEncoding m spec g s = (M, s1) \<and> length M = len g
           \<and> M = map (\<lambda>ob. fst (objectEncoding m spec ob s1)) (objects g)
           \<and> (\<forall>ob \<in> set (objects g). snd (objectEncoding m spec ob s1) = s1)"
    if pos: "0 < len g"
  proof -
    obtain M s1 where e: "encode_objects m spec (objects g) s = (M, s1)" by force
    note rows = encode_objects_rows [OF e]
    have hit: "objectEncoding m spec ob s1 = (the (objectEncodings s1 ob), s1)"
      if "ob \<in> set (objects g)" for ob
    proof -
      from that rows obtain oe where "objectEncodings s1 ob = Some oe" by auto
      then show ?thesis using objectEncoding_hit [of s1 ob oe m spec] by simp
    qed
    have "M = map (\<lambda>ob. fst (objectEncoding m spec ob s1)) (objects g)"
      using rows hit by simp
    moreover have "length M = len g"
      using encode_objects_length [OF e] by (simp add: len_def objects_def)
    moreover have "scopeEncoding m spec g s = (M, s1)"
      using pos e by (simp add: scopeEncoding_def)
    ultimately show ?thesis using hit by auto
  qed
  have C: "fst (scopeEncoding m spec g s) \<noteq> []"
  proof (cases "0 < len g")
    case True
    from B [OF True] True show ?thesis by auto
  next
    case False
    then show ?thesis using A by simp
  qed
  from A B C show ?thesis by blast
qed

theorem scopeEncoding_rows_witness:
  "scopeEncoding (model example_smc) () \<lparr>ident = 0, nodes = []\<rparr> (fresh_search 0 0)
     = ([[0, 0]], fresh_search 0 0)
   \<and> fst (scopeEncoding (model example_smc) () \<lparr>ident = 1, nodes = [1, 2]\<rparr> (fresh_search 0 0))
     = [[0, 1], [1, 2]]"
  using scopeEncoding_rows [of "\<lparr>ident = 0, nodes = []\<rparr>" "model example_smc" "()" "fresh_search 0 0"]
    scopeEncoding_rows [of "\<lparr>ident = 1, nodes = [1, 2]\<rparr>" "model example_smc" "()" "fresh_search 0 0"]
  by (simp add: example_defs eval_nat_numeral)

text \<open>
  Claim C8. A query of the object encoding never raises. It returns the stored tensor
  when the object is in the dictionary, without invoking the encoder and without
  changing the state; on a miss it invokes the encoder once, stores the result and logs
  the invocation. From then on, in every later state of the search, the query returns
  that same stored tensor (even though the encoder, invoked again, might answer
  differently). Every round leads to such a later state, and when \<open>infer\<close> is done the
  encoder has been invoked exactly once on every object of the dictionary.
\<close>

theorem objectEncoding_memoised:
  "(\<exists>oe s1. objectEncoding m spec ob s = (oe, s1)
       \<and> objectEncodings s1 ob = Some oe
       \<and> (objectEncodings s ob = None \<longrightarrow>
            oe = objectEncoder m (length (encoder_calls s)) spec (execute m ob)
            \<and> encoder_calls s1 = encoder_calls s @ [ob])
       \<and> (objectEncodings s ob \<noteq> None \<longrightarrow> objectEncodings s ob = Some oe \<and> s1 = s)
       \<and> (\<forall>s2. evolves s1 s2 \<longrightarrow> objectEncoding m spec ob s2 = (oe, s2))
       \<and> evolves s s1)
   \<and> (smc_round smc spec se pop s = Inr (pop1, s') \<longrightarrow> evolves s s')
   \<and> (infer_population smc spec maximumLength h r = Inr (popn, sn) \<longrightarrow>
        distinct (encoder_calls sn) \<and> set (encoder_calls sn) = dom (objectEncodings sn))"
proof (intro conjI)
  obtain oe s1 where a: "objectEncoding m spec ob s = (oe, s1)" by force
  have st: "objectEncodings s1 ob = Some oe" by (rule objectEncoding_stored [OF a])
  show "\<exists>oe s1. objectEncoding m spec ob s = (oe, s1)
       \<and> objectEncodings s1 ob = Some oe
       \<and> (objectEncodings s ob = None \<longrightarrow>
            oe = objectEncoder m (length (encoder_calls s)) spec (execute m ob)
            \<and> encoder_calls s1 = encoder_calls s @ [ob])
       \<and> (objectEncodings s ob \<noteq> None \<longrightarrow> objectEncodings s ob = Some oe \<and> s1 = s)
       \<and> (\<forall>s2. evolves s1 s2 \<longrightarrow> objectEncoding m spec ob s2 = (oe, s2))
       \<and> evolves s s1"
  proof (intro exI conjI)
    show "objectEncoding m spec ob s = (oe, s1)" by (rule a)
    show "objectEncodings s1 ob = Some oe" by (rule st)
    show "objectEncodings s ob = None \<longrightarrow>
            oe = objectEncoder m (length (encoder_calls s)) spec (execute m ob)
            \<and> encoder_calls s1 = encoder_calls s @ [ob]"
      using a by (auto simp: objectEncoding_def Let_def)
    show "objectEncodings s ob \<noteq> None \<longrightarrow> objectEncodings s ob = Some oe \<and> s1 = s"
      using a by (auto simp: objectEncoding_def)
    show "\<forall>s2. evolves s1 s2 \<longrightarrow> objectEncoding m spec ob s2 = (oe, s2)"
    proof (intro allI impI)
      fix s2 assume "evolves s1 s2"
      then have "objectEncodings s2 ob = Some oe" using st by (rule evolves_lookup)
      then show "objectEncoding m spec ob s2 = (oe, s2)" by (rule objectEncoding_hit)
    qed
    show "evolves s s1" by (rule objectEncoding_evolves [OF a])
  qed
next
  show "smc_round smc spec se pop s = Inr (pop1, s') \<longrightarrow> evolves s s'"
    by (intro impI) (rule smc_round_evolves)
next
  show "infer_population smc spec maximumLength h r = Inr (popn, sn) \<longrightarrow>
        distinct (encoder_calls sn) \<and> set (encoder_calls sn) = dom (objectEncodings sn)"
  proof
    assume "infer_population smc spec maximumLength h r = Inr (popn, sn)"
    then have "cache_ok sn" by (rule infer_population_cache_ok)
    then show "distinct (encoder_calls sn) \<and> set (encoder_calls sn) = dom (objectEncodings sn)"
      by (simp add: cache_ok_def)
  qed
qed

lemma exp_shifted_eq_Nil: "(exp_shifted lws = []) = (lws = [])"
  by (simp add: exp_shifted_def)

lemma length_exp_shifted: "length (exp_shifted lws) = length lws"
  by (simp add: exp_shifted_def)

lemmas round_eval = softmax_eval exp_shifted_eq_Nil length_exp_shifted

theorem objectEncoding_memoised_witness:
  "objectEncoding (model fading_smc) () 1 (snd fading_start)
     = ([0, 1], \<lparr>heap = 1, objectEncodings = [1 \<mapsto> [0, 1]], distance_dict = [0 \<mapsto> 3],
                 encoder_calls = [1], rng = 0\<rparr>)
   \<and> objectEncoding (model fading_smc) () 1
        \<lparr>heap = 1, objectEncodings = [1 \<mapsto> [0, 1]], distance_dict = [0 \<mapsto> 3],
         encoder_calls = [1], rng = 0\<rparr>
     = ([0, 1], \<lparr>heap = 1, objectEncodings = [1 \<mapsto> [0, 1]], distance_dict = [0 \<mapsto> 3],
                 encoder_calls = [1], rng = 0\<rparr>)
   \<and> map graph (fst (projr (infer_population fading_smc () 1 0 0)))
     = [\<lparr>ident = 1, nodes = [1]\<rparr>]
   \<and> encoder_calls (snd (projr (infer_population fading_smc () 1 0 0))) = [1]"
  using objectEncoding_memoised [of "model fading_smc" "()" 1 "snd fading_start"
      fading_smc "[1]" "fst fading_start"
      "fst (projr (smc_round fading_smc () [1] (fst fading_start) (snd fading_start)))"
      "snd (projr (smc_round fading_smc () [1] (fst fading_start) (snd fading_start)))"
      1 0 0
      "fst (projr (infer_population fading_smc () 1 0 0))"
      "snd (projr (infer_population fading_smc () 1 0 0))"]
  by (simp add: example_defs round_eval eval_nat_numeral)

section \<open>Resampling and the size of the population\<close>

lemma resample_Nil: "resample [] fs = []"
  by (cases fs) simp_all

lemma resample_sum:
  "length fs = length samples \<Longrightarrow> \<forall>f \<in> set fs. 0 \<le> f \<Longrightarrow>
     sum_list (map frequency (resample samples fs)) = sum_list fs"
proof (induction samples fs rule: resample.induct)
  case (1 particle samples f sampleFrequencies)
  then show ?case by (cases "0 < f") auto
qed simp_all

lemma make_particles_length:
  "make_particles m spec se items s = (ps, s1) \<Longrightarrow> length ps = length items"
  using make_particles_fields [of m spec se items s ps s1] by (metis length_map)

lemma make_particles_Nil: "make_particles m spec se [] s = ([], s)"
  by simp

lemma multinomial_ok_all_on_first: "multinomial_ok (scripted_net script all_on_first)"
  by (auto simp: multinomial_ok_def scripted_net_def all_on_first_def sum_list_replicate
      Suc_leI)

text \<open>What a round returns, in terms of its tally.\<close>

lemma smc_round_result:
  assumes "smc_round smc spec se pop s = Inr (pop1, s1)"
  obtains sf s0 samples s2 lws ps where
    "tally_population (model smc) spec se pop [] s = Inr (sf, s0)"
    "make_particles (model smc) spec se sf s0 = (samples, s2)"
    "logWeights samples = Inr lws"
    "normalise (exp_shifted lws) = Inr ps"
    "pop1 = resample samples (multinomial (model smc) (rng s2) (particles smc) ps)"
    "s1 = s2\<lparr>rng := Suc (rng s2)\<rparr>"
proof -
  from assms obtain sf s0 where t: "tally_population (model smc) spec se pop [] s = Inr (sf, s0)"
    by (auto simp: smc_round_def split: sum.splits)
  obtain samples s2 where mk: "make_particles (model smc) spec se sf s0 = (samples, s2)"
    by force
  from assms t mk obtain lws where lw: "logWeights samples = Inr lws"
    by (auto simp: smc_round_def split: sum.splits)
  from assms t mk lw obtain ps where n: "normalise (exp_shifted lws) = Inr ps"
    by (auto simp: smc_round_def split: sum.splits)
  from assms t mk lw n have
    "pop1 = resample samples (multinomial (model smc) (rng s2) (particles smc) ps)"
    "s1 = s2\<lparr>rng := Suc (rng s2)\<rparr>"
    by (auto simp: smc_round_def)
  with t mk lw n that show ?thesis by blast
qed

lemma normalise_Inr_length: "normalise ps = Inr qs \<Longrightarrow> length qs = length ps"
  by (auto simp: normalise_def split: if_splits)

lemma smc_round_sum:
  assumes ok: "multinomial_ok (model smc)" and pos: "0 \<le> particles smc"
    and rd: "smc_round smc spec se pop s = Inr (pop1, s1)"
    and t: "tally_population (model smc) spec se pop [] s = Inr (sf, s0)"
  shows "(sf \<noteq> [] \<longrightarrow> sum_list (map frequency pop1) = particles smc)
       \<and> (sf = [] \<longrightarrow> pop1 = [])"
proof -
  from rd obtain sf' s0' samples s2 lws ps where
    t': "tally_population (model smc) spec se pop [] s = Inr (sf', s0')"
    and mk: "make_particles (model smc) spec se sf' s0' = (samples, s2)"
    and lw: "logWeights samples = Inr lws"
    and n: "normalise (exp_shifted lws) = Inr ps"
    and p1: "pop1 = resample samples (multinomial (model smc) (rng s2) (particles smc) ps)"
    by (rule smc_round_result)
  from t t' have eq: "sf' = sf" by simp
  let ?fs = "multinomial (model smc) (rng s2) (particles smc) ps"
  have len: "length ps = length sf"
    using normalise_Inr_length [OF n] logWeights_Inr_length [OF lw]
      make_particles_length [OF mk] eq by (simp add: length_exp_shifted)
  have c: "length ?fs = length ps \<and> (\<forall>c \<in> set ?fs. 0 \<le> c)
      \<and> (ps \<noteq> [] \<longrightarrow> sum_list ?fs = particles smc)"
    using ok pos unfolding multinomial_ok_def by blast
  have a: "sf \<noteq> [] \<longrightarrow> sum_list (map frequency pop1) = particles smc"
  proof
    assume "sf \<noteq> []"
    then have "ps \<noteq> []" using len by auto
    moreover have "length ?fs = length samples"
      using c len make_particles_length [OF mk] eq by simp
    ultimately show "sum_list (map frequency pop1) = particles smc"
      using c resample_sum [of ?fs samples] p1 by simp
  qed
  have b: "sf = [] \<longrightarrow> pop1 = []"
  proof
    assume "sf = []"
    then have "samples = []" using make_particles_length [OF mk] eq by simp
    then show "pop1 = []" using p1 by (simp add: resample_Nil)
  qed
  from a b show ?thesis by blast
qed

lemma rounds_sum:
  assumes ok: "multinomial_ok (model smc)" and pos: "0 \<le> particles smc"
  shows "rounds k smc spec se pop s = Inr (pop1, s1) \<Longrightarrow>
     pop = [] \<or> sum_list (map frequency pop) = particles smc \<Longrightarrow>
     pop1 = [] \<or> sum_list (map frequency pop1) = particles smc"
proof (induction k arbitrary: pop s)
  case 0
  then show ?case by simp
next
  case (Suc k)
  from Suc.prems(1) obtain pop' s' where
    rd: "smc_round smc spec se pop s = Inr (pop', s')"
    and rest: "rounds k smc spec se pop' s' = Inr (pop1, s1)"
    by (auto split: sum.splits)
  from rd obtain sf s0 where t: "tally_population (model smc) spec se pop [] s = Inr (sf, s0)"
    by (rule smc_round_result)
  have "pop' = [] \<or> sum_list (map frequency pop') = particles smc"
    using smc_round_sum [OF ok pos rd t] by blast
  then show ?case by (rule Suc.IH [OF rest])
qed

text \<open>
  Claim C3, as amended. Let the multinomial draw keep its contract and let \<open>particles\<close> be
  positive. After the resampling step of a round whose tally is not empty, the
  frequencies of the resulting population add up to \<open>particles\<close> exactly: the counts of
  the draw add up to \<open>particles\<close> and dropping the particles with count zero does not
  change the sum. A round whose tally is empty results in the empty population. So the
  population \<open>infer\<close> ends with is either empty or has total frequency \<open>particles\<close>.
\<close>

theorem population_size:
  assumes "multinomial_ok (model smc)" and "0 < particles smc"
  shows "(smc_round smc spec se pop s = Inr (pop1, s1)
          \<and> tally_population (model smc) spec se pop [] s = Inr (sf, s0) \<longrightarrow>
            (sf \<noteq> [] \<longrightarrow> sum_list (map frequency pop1) = particles smc)
            \<and> (sf = [] \<longrightarrow> pop1 = []))
       \<and> (infer_population smc spec maximumLength h r = Inr (popn, sn) \<longrightarrow>
            popn = [] \<or> sum_list (map frequency popn) = particles smc)"
proof (rule conjI)
  from assms(2) have pos: "0 \<le> particles smc" by simp
  show "smc_round smc spec se pop s = Inr (pop1, s1)
          \<and> tally_population (model smc) spec se pop [] s = Inr (sf, s0) \<longrightarrow>
            (sf \<noteq> [] \<longrightarrow> sum_list (map frequency pop1) = particles smc)
            \<and> (sf = [] \<longrightarrow> pop1 = [])"
    using smc_round_sum [OF assms(1) pos] by blast
next
  from assms(2) have pos: "0 \<le> particles smc" by simp
  show "infer_population smc spec maximumLength h r = Inr (popn, sn) \<longrightarrow>
            popn = [] \<or> sum_list (map frequency popn) = particles smc"
  proof (rule impI)
    assume b: "infer_population smc spec maximumLength h r = Inr (popn, sn)"
    obtain pop0 st0 where i: "initial_population smc spec (fresh_search h r) = (pop0, st0)"
      by force
    then have "sum_list (map frequency pop0) = particles smc"
      by (auto simp: initial_population_def ProgramGraph_init_def Particle_init_def
          split: prod.splits)
    moreover from b i have
      "rounds (nat maximumLength) smc spec (specEncoder (model smc) spec) pop0 st0
         = Inr (popn, sn)"
      by (simp add: infer_population_def)
    ultimately show "popn = [] \<or> sum_list (map frequency popn) = particles smc"
      using rounds_sum [OF assms(1) pos] by blast
  qed
qed

theorem population_size_witness:
  "smc_round example_smc () [1] (fst example_start) (snd example_start)
     = Inr ([\<lparr>frequency = 3, graph = \<lparr>ident = 1, nodes = [1]\<rparr>, p_distance = 3\<rparr>],
            \<lparr>heap = 2, objectEncodings = [1 \<mapsto> [0, 1]], distance_dict = [0 \<mapsto> 3, 1 \<mapsto> 3],
             encoder_calls = [1], rng = 4\<rparr>)
   \<and> sum_list (map frequency
        (fst (projr (smc_round example_smc () [1] (fst example_start) (snd example_start)))))
     = particles example_smc
   \<and> sum_list (map frequency (fst (projr (infer_population example_smc () 1 0 0))))
     = particles example_smc"
proof -
  have ok: "multinomial_ok (model example_smc)"
    by (simp add: example_smc_def multinomial_ok_all_on_first)
  have pos: "0 < particles example_smc" by (simp add: example_smc_def)
  show ?thesis
    using population_size [OF ok pos, of "()" "[1]" "fst example_start" "snd example_start"
        "fst (projr (smc_round example_smc () [1] (fst example_start) (snd example_start)))"
        "snd (projr (smc_round example_smc () [1] (fst example_start) (snd example_start)))"
        "fst example_tally" "snd example_tally" 1 0 0
        "fst (projr (infer_population example_smc () 1 0 0))"
        "snd (projr (infer_population example_smc () 1 0 0))"]
    by (simp add: example_defs round_eval eval_nat_numeral)
qed

text \<open>
  The claim as stated, for every round, fails: in the second round of \<open>fading_smc\<close> the
  decoder yields no candidate, the tally is empty, and the resulting population is empty,
  so its frequencies add up to 0 and not to the 2 particles configured. The multinomial
  draw of this controller keeps its contract.
\<close>

theorem population_size_counterexample:
  "multinomial_ok (model fading_smc)
   \<and> infer_population fading_smc () 2 0 0
     = Inr ([], \<lparr>heap = 3, objectEncodings = [1 \<mapsto> [0, 1]],
                 distance_dict = [0 \<mapsto> 3, 1 \<mapsto> 3, 2 \<mapsto> 3], encoder_calls = [1], rng = 6\<rparr>)
   \<and> sum_list (map frequency (fst (projr (infer_population fading_smc () 2 0 0))))
     \<noteq> particles fading_smc"
proof -
  have ok: "multinomial_ok (model fading_smc)"
    by (simp add: fading_smc_def multinomial_ok_all_on_first)
  have run: "infer_population fading_smc () 2 0 0
     = Inr ([], \<lparr>heap = 3, objectEncodings = [1 \<mapsto> [0, 1]],
                 distance_dict = [0 \<mapsto> 3, 1 \<mapsto> 3, 2 \<mapsto> 3], encoder_calls = [1], rng = 6\<rparr>)"
    by (simp add: example_defs round_eval eval_nat_numeral)
  have "particles fading_smc = 2" by (simp add: fading_smc_def)
  with ok run show ?thesis by simp
qed

section \<open>Rounds without candidates\<close>

lemma tally_population_no_candidates:
  "no_candidates m se pop (objectEncodings s) (rng s) \<Longrightarrow>
     \<exists>r1. tally_population m spec se pop [] s = Inr ([], s\<lparr>rng := r1\<rparr>)"
proof (induction pop arbitrary: s)
  case Nil
  have "s = s\<lparr>rng := rng s\<rparr>" by simp
  then show ?case by (metis tally_population.simps(1))
next
  case (Cons p pop)
  from Cons.prems obtain r0 where
    a: "repeatedlySample m se (graph p) (objectEncodings s) (frequency p) (rng s) = Inr ([], r0)"
    and b: "no_candidates m se pop (objectEncodings s) r0"
    by (auto split: sum.splits)
  from b have "no_candidates m se pop (objectEncodings (s\<lparr>rng := r0\<rparr>)) (rng (s\<lparr>rng := r0\<rparr>))"
    by simp
  from Cons.IH [OF this] obtain r1 where
    "tally_population m spec se pop [] (s\<lparr>rng := r0\<rparr>) = Inr ([], s\<lparr>rng := r0, rng := r1\<rparr>)"
    by blast
  with a have "tally_population m spec se (p # pop) [] s = Inr ([], s\<lparr>rng := r1\<rparr>)"
    by simp
  then show ?case by blast
qed

lemma tally_samples_nonempty:
  "tally_samples m spec pg samples sf s = (sf1, s1) \<Longrightarrow> sf \<noteq> [] \<or> samples \<noteq> [] \<Longrightarrow>
     sf1 \<noteq> []"
proof (induction m spec pg samples sf s rule: tally_samples.induct)
  case (1 m spec pg sampleFrequency s)
  then show ?case by simp
next
  case (2 m spec pg rest sampleFrequency s)
  then show ?case by (simp add: dict_set_nonempty)
next
  case (3 m spec pg newObject rest sampleFrequency s)
  obtain oe s0 where a: "objectEncoding m spec newObject s = (oe, s0)" by force
  obtain newGraph h where b: "graph_extend pg newObject (heap s0) = (newGraph, h)" by force
  from "3.prems"(1) a b have c:
    "tally_samples m spec pg rest
       (dict_set sampleFrequency newGraph (dict_get sampleFrequency newGraph 0 + 1))
       (s0\<lparr>heap := h\<rparr>) = (sf1, s1)"
    by simp
  show ?case
    using "3.IH" [OF a [symmetric] b [symmetric] c] by (simp add: dict_set_nonempty)
qed

lemma tally_population_nonempty:
  "tally_population m spec se pop sf s = Inr (sf1, s1) \<Longrightarrow> sf \<noteq> [] \<Longrightarrow> sf1 \<noteq> []"
proof (induction pop arbitrary: sf s)
  case Nil
  then show ?case by simp
next
  case (Cons p pop)
  from Cons.prems(1) obtain samples r where
    a: "repeatedlySample m se (graph p) (objectEncodings s) (frequency p) (rng s) = Inr (samples, r)"
    by (auto split: sum.splits)
  obtain sf0 s0 where b: "tally_samples m spec (graph p) samples sf (s\<lparr>rng := r\<rparr>) = (sf0, s0)"
    by force
  from Cons.prems(1) a b have c: "tally_population m spec se pop sf0 s0 = Inr (sf1, s1)" by simp
  have "sf0 \<noteq> []" using tally_samples_nonempty [OF b] Cons.prems(2) by simp
  then show ?case by (rule Cons.IH [OF c])
qed

lemma tally_empty_no_candidates:
  "tally_population m spec se pop [] s = Inr ([], s1) \<Longrightarrow>
     no_candidates m se pop (objectEncodings s) (rng s)"
proof (induction pop arbitrary: s)
  case Nil
  then show ?case by simp
next
  case (Cons p pop)
  from Cons.prems obtain samples r where
    a: "repeatedlySample m se (graph p) (objectEncodings s) (frequency p) (rng s) = Inr (samples, r)"
    by (auto split: sum.splits)
  obtain sf0 s0 where b: "tally_samples m spec (graph p) samples [] (s\<lparr>rng := r\<rparr>) = (sf0, s0)"
    by force
  from Cons.prems a b have c: "tally_population m spec se pop sf0 s0 = Inr ([], s1)" by simp
  have e: "sf0 = []" using tally_population_nonempty [OF c] by blast
  have n: "samples = []" using tally_samples_nonempty [OF b] e by blast
  with b have s0: "s0 = s\<lparr>rng := r\<rparr>" by simp
  from c e s0 have "tally_population m spec se pop [] (s\<lparr>rng := r\<rparr>) = Inr ([], s1)" by simp
  from Cons.IH [OF this] have "no_candidates m se pop (objectEncodings s) r" by simp
  with a n show ?case by simp
qed

lemma smc_round_empty_tally:
  "tally_population (model smc) spec se pop [] s = Inr ([], s1) \<Longrightarrow>
     smc_round smc spec se pop s = Inr ([], s1\<lparr>rng := Suc (rng s1)\<rparr>)"
  by (simp add: smc_round_def exp_shifted_Nil normalise_Nil resample_Nil)

lemma rounds_Nil:
  "\<exists>s1. rounds k smc spec se [] s = Inr ([], s1)"
proof (induction k arbitrary: s)
  case 0
  then show ?case by simp
next
  case (Suc k)
  have "smc_round smc spec se [] s = Inr ([], s\<lparr>rng := Suc (rng s)\<rparr>)"
    by (rule smc_round_empty_tally) simp
  then show ?case using Suc.IH by simp
qed

lemma rounds_add:
  "rounds (j + k) smc spec se pop s =
     (case rounds j smc spec se pop s of
        Inl e \<Rightarrow> Inl e
      | Inr (pop1, s1) \<Rightarrow> rounds k smc spec se pop1 s1)"
  by (induction j arbitrary: pop s) (auto split: sum.splits)

text \<open>
  Claim C2. The proposal oracle returns zero candidates for every particle of a round
  exactly when the round's tally is empty. Such a round raises nothing and results in
  the empty population, and so do all rounds after it. Hence, when this happens in some
  round of \<open>infer\<close> (the round after the first \<open>j\<close> ones), \<open>infer\<close> returns the empty list,
  however many rounds follow.
\<close>

theorem no_candidates_round:
  "(no_candidates (model smc) se pop (objectEncodings s) (rng s)
      \<longleftrightarrow> (\<exists>s0. tally_population (model smc) spec se pop [] s = Inr ([], s0)))
   \<and> (no_candidates (model smc) se pop (objectEncodings s) (rng s) \<longrightarrow>
        (\<exists>s1. smc_round smc spec se pop s = Inr ([], s1))
        \<and> (\<exists>s2. rounds (Suc k) smc spec se pop s = Inr ([], s2)))
   \<and> (infer_population smc spec (int j) h r = Inr (popj, sj)
        \<and> no_candidates (model smc) (specEncoder (model smc) spec) popj
             (objectEncodings sj) (rng sj) \<longrightarrow>
          infer smc spec (int (j + Suc k)) h r = Inr [])"
proof (intro conjI)
  show "no_candidates (model smc) se pop (objectEncodings s) (rng s)
      \<longleftrightarrow> (\<exists>s0. tally_population (model smc) spec se pop [] s = Inr ([], s0))"
    using tally_population_no_candidates [of "model smc" se pop s spec]
      tally_empty_no_candidates [of "model smc" spec se pop s]
    by blast
next
  have step: "\<exists>s1. smc_round smc spec se pop s = Inr ([], s1)
      \<and> (\<exists>s2. rounds k smc spec se [] s1 = Inr ([], s2))"
    if n: "no_candidates (model smc) se pop (objectEncodings s) (rng s)" for se pop s
  proof -
    from tally_population_no_candidates [OF n] obtain r1 where
      "tally_population (model smc) spec se pop [] s = Inr ([], s\<lparr>rng := r1\<rparr>)"
      by blast
    from smc_round_empty_tally [OF this] obtain s1 where
      a: "smc_round smc spec se pop s = Inr ([], s1)"
      by blast
    obtain s2 where "rounds k smc spec se [] s1 = Inr ([], s2)"
      using rounds_Nil [of k smc spec se s1] by blast
    with a show ?thesis by blast
  qed
  show "no_candidates (model smc) se pop (objectEncodings s) (rng s) \<longrightarrow>
        (\<exists>s1. smc_round smc spec se pop s = Inr ([], s1))
        \<and> (\<exists>s2. rounds (Suc k) smc spec se pop s = Inr ([], s2))"
  proof
    assume "no_candidates (model smc) se pop (objectEncodings s) (rng s)"
    from step [OF this] show "(\<exists>s1. smc_round smc spec se pop s = Inr ([], s1))
        \<and> (\<exists>s2. rounds (Suc k) smc spec se pop s = Inr ([], s2))"
      by auto
  qed
  show "infer_population smc spec (int j) h r = Inr (popj, sj)
        \<and> no_candidates (model smc) (specEncoder (model smc) spec) popj
             (objectEncodings sj) (rng sj) \<longrightarrow>
          infer smc spec (int (j + Suc k)) h r = Inr []"
  proof
    let ?se = "specEncoder (model smc) spec"
    assume a: "infer_population smc spec (int j) h r = Inr (popj, sj)
        \<and> no_candidates (model smc) ?se popj (objectEncodings sj) (rng sj)"
    obtain pop0 s0 where i: "initial_population smc spec (fresh_search h r) = (pop0, s0)"
      by force
    from a i have rj: "rounds j smc spec ?se pop0 s0 = Inr (popj, sj)"
      by (simp add: infer_population_def)
    from a step obtain s1 s2 where
      "smc_round smc spec ?se popj sj = Inr ([], s1)" "rounds k smc spec ?se [] s1 = Inr ([], s2)"
      by blast
    then have "rounds (Suc k) smc spec ?se popj sj = Inr ([], s2)" by simp
    with rj have R: "rounds (j + Suc k) smc spec ?se pop0 s0 = Inr ([], s2)"
      by (simp only: rounds_add) simp
    have "infer_population smc spec (int (j + Suc k)) h r = Inr ([], s2)"
      unfolding infer_population_def i using R by (simp only: nat_int prod.case)
    then show "infer smc spec (int (j + Suc k)) h r = Inr []"
      by (simp add: infer_def)
  qed
qed

theorem no_candidates_round_witness:
  "infer_population fading_smc () 1 0 0
     = Inr ([\<lparr>frequency = 2, graph = \<lparr>ident = 1, nodes = [1]\<rparr>, p_distance = 3\<rparr>],
            \<lparr>heap = 3, objectEncodings = [1 \<mapsto> [0, 1]],
             distance_dict = [0 \<mapsto> 3, 1 \<mapsto> 3, 2 \<mapsto> 3], encoder_calls = [1], rng = 3\<rparr>)
   \<and> no_candidates (model fading_smc) [1]
        [\<lparr>frequency = 2, graph = \<lparr>ident = 1, nodes = [1]\<rparr>, p_distance = 3\<rparr>]
        [1 \<mapsto> [0, 1]] 3
   \<and> infer fading_smc () 3 0 0 = Inr []"
proof -
  have run: "infer_population fading_smc () (int 1) 0 0
     = Inr ([\<lparr>frequency = 2, graph = \<lparr>ident = 1, nodes = [1]\<rparr>, p_distance = 3\<rparr>],
            \<lparr>heap = 3, objectEncodings = [1 \<mapsto> [0, 1]],
             distance_dict = [0 \<mapsto> 3, 1 \<mapsto> 3, 2 \<mapsto> 3], encoder_calls = [1], rng = 3\<rparr>)"
    by (simp add: example_defs round_eval eval_nat_numeral)
  have none: "no_candidates (model fading_smc) [1]
        [\<lparr>frequency = 2, graph = \<lparr>ident = 1, nodes = [1]\<rparr>, p_distance = 3\<rparr>]
        [1 \<mapsto> [0, 1]] 3"
    by (simp add: example_defs eval_nat_numeral)
  have se: "specEncoder (model fading_smc) () = [1]"
    by (simp add: fading_smc_def scripted_net_def)
  show ?thesis
    using no_candidates_round [of fading_smc "[1]"
        "[\<lparr>frequency = 2, graph = \<lparr>ident = 1, nodes = [1]\<rparr>, p_distance = 3\<rparr>]"
        "\<lparr>heap = 3, objectEncodings = [1 \<mapsto> [0, 1]],
             distance_dict = [0 \<mapsto> 3, 1 \<mapsto> 3, 2 \<mapsto> 3], encoder_calls = [1], rng = 3\<rparr>"
        "()" 1 1 0 0
        "[\<lparr>frequency = 2, graph = \<lparr>ident = 1, nodes = [1]\<rparr>, p_distance = 3\<rparr>]"
        "\<lparr>heap = 3, objectEncodings = [1 \<mapsto> [0, 1]],
             distance_dict = [0 \<mapsto> 3, 1 \<mapsto> 3, 2 \<mapsto> 3], encoder_calls = [1], rng = 3\<rparr>"]
      run none se
    by simp
qed

section \<open>Graphs with the same nodes in the tally\<close>

text \<open>
  Claim C1 does not hold of the code. Two calls of \<open>extend\<close> with the same receiver and
  the same node return graphs with the same node set that are not equal and do not hash
  alike. In the second round of \<open>dup_smc\<close> the particle holding \<open>{1}\<close> proposes 2 and the
  particle holding \<open>{2}\<close> proposes 1: the tally keeps two entries of count 1 for the node
  set \<open>{1, 2}\<close> instead of one entry of count 2, and \<open>infer\<close> returns both graphs.
\<close>

theorem tally_keeps_duplicates:
  "set (objects (fst (graph_extend g n h)))
     = set (objects (fst (graph_extend g n (snd (graph_extend g n h)))))
   \<and> \<not> graph_eq (fst (graph_extend g n h)) (fst (graph_extend g n (snd (graph_extend g n h))))
   \<and> graph_hash (fst (graph_extend g n h))
     \<noteq> graph_hash (fst (graph_extend g n (snd (graph_extend g n h))))
   \<and> infer_population dup_smc () 1 0 0
     = Inr ([\<lparr>frequency = 1, graph = \<lparr>ident = 1, nodes = [1]\<rparr>, p_distance = 3\<rparr>,
             \<lparr>frequency = 1, graph = \<lparr>ident = 2, nodes = [2]\<rparr>, p_distance = 3\<rparr>],
            \<lparr>heap = 3, objectEncodings = [1 \<mapsto> [0, 1], 2 \<mapsto> [1, 2]],
             distance_dict = [0 \<mapsto> 3, 1 \<mapsto> 3, 2 \<mapsto> 3], encoder_calls = [1, 2], rng = 3\<rparr>)
   \<and> tally_population (model dup_smc) () [1]
        [\<lparr>frequency = 1, graph = \<lparr>ident = 1, nodes = [1]\<rparr>, p_distance = 3\<rparr>,
         \<lparr>frequency = 1, graph = \<lparr>ident = 2, nodes = [2]\<rparr>, p_distance = 3\<rparr>] []
        \<lparr>heap = 3, objectEncodings = [1 \<mapsto> [0, 1], 2 \<mapsto> [1, 2]],
         distance_dict = [0 \<mapsto> 3, 1 \<mapsto> 3, 2 \<mapsto> 3], encoder_calls = [1, 2], rng = 3\<rparr>
     = Inr ([(\<lparr>ident = 3, nodes = [1, 2]\<rparr>, 1), (\<lparr>ident = 4, nodes = [2, 1]\<rparr>, 1)],
            \<lparr>heap = 5, objectEncodings = [1 \<mapsto> [0, 1], 2 \<mapsto> [1, 2]],
             distance_dict = [0 \<mapsto> 3, 1 \<mapsto> 3, 2 \<mapsto> 3], encoder_calls = [1, 2], rng = 5\<rparr>)
   \<and> infer dup_smc () 2 0 0
     = Inr [\<lparr>ident = 3, nodes = [1, 2]\<rparr>, \<lparr>ident = 4, nodes = [2, 1]\<rparr>]"
proof (intro conjI)
  show "set (objects (fst (graph_extend g n h)))
     = set (objects (fst (graph_extend g n (snd (graph_extend g n h)))))"
    by (simp add: graph_extend_def ProgramGraph_init_def objects_def)
  show "\<not> graph_eq (fst (graph_extend g n h))
      (fst (graph_extend g n (snd (graph_extend g n h))))"
    by (simp add: graph_extend_def ProgramGraph_init_def graph_eq_def)
  show "graph_hash (fst (graph_extend g n h))
     \<noteq> graph_hash (fst (graph_extend g n (snd (graph_extend g n h))))"
    by (simp add: graph_extend_def ProgramGraph_init_def graph_hash_def)
  show "infer_population dup_smc () 1 0 0
     = Inr ([\<lparr>frequency = 1, graph = \<lparr>ident = 1, nodes = [1]\<rparr>, p_distance = 3\<rparr>,
             \<lparr>frequency = 1, graph = \<lparr>ident = 2, nodes = [2]\<rparr>, p_distance = 3\<rparr>],
            \<lparr>heap = 3, objectEncodings = [1 \<mapsto> [0, 1], 2 \<mapsto> [1, 2]],
             distance_dict = [0 \<mapsto> 3, 1 \<mapsto> 3, 2 \<mapsto> 3], encoder_calls = [1, 2], rng = 3\<rparr>)"
    by (simp add: example_defs round_eval eval_nat_numeral)
  show "tally_population (model dup_smc) () [1]
        [\<lparr>frequency = 1, graph = \<lparr>ident = 1, nodes = [1]\<rparr>, p_distance = 3\<rparr>,
         \<lparr>frequency = 1, graph = \<lparr>ident = 2, nodes = [2]\<rparr>, p_distance = 3\<rparr>] []
        \<lparr>heap = 3, objectEncodings = [1 \<mapsto> [0, 1], 2 \<mapsto> [1, 2]],
         distance_dict = [0 \<mapsto> 3, 1 \<mapsto> 3, 2 \<mapsto> 3], encoder_calls = [1, 2], rng = 3\<rparr>
     = Inr ([(\<lparr>ident = 3, nodes = [1, 2]\<rparr>, 1), (\<lparr>ident = 4, nodes = [2, 1]\<rparr>, 1)],
            \<lparr>heap = 5, objectEncodings = [1 \<mapsto> [0, 1], 2 \<mapsto> [1, 2]],
             distance_dict = [0 \<mapsto> 3, 1 \<mapsto> 3, 2 \<mapsto> 3], encoder_calls = [1, 2], rng = 5\<rparr>)"
    by (simp add: example_defs eval_nat_numeral)
  show "infer dup_smc () 2 0 0
     = Inr [\<lparr>ident = 3, nodes = [1, 2]\<rparr>, \<lparr>ident = 4, nodes = [2, 1]\<rparr>]"
    by (simp add: example_defs round_eval eval_nat_numeral)
qed

end
